theory Spec2Isabelle
  imports
    Complex_Main
    "HOL-Library.Char_ord"
    "HOL-Library.List_Lexorder"
    "HOL-Library.Product_Lexorder"
    "HOL-Library.Multiset"
begin

section \<open>Lamport distributed mutual exclusion (dme.py): the data model\<close>

text \<open>
  A peer is one entry of the list \<^verbatim>\<open>peers\<close>, a dict with the keys
  \<^verbatim>\<open>"host"\<close>, \<^verbatim>\<open>"port"\<close> and \<^verbatim>\<open>"id"\<close>.
\<close>

record peer =
  peer_host :: string
  peer_port :: nat
  peer_id :: string

text \<open>
  A protocol message is a JSON object. The model keeps the five keys that the code reads
  or writes; a key that is absent is \<open>None\<close>. Timestamps are Python integers
  (unbounded), node ids are strings. JSON values of another type under these keys are
  outside the model.
\<close>

record msg =
  mtype :: "string option"
  timestamp :: "int option"
  node_id :: "string option"
  status :: "string option"
  message :: "string option"

definition empty_msg :: msg where
  "empty_msg = \<lparr>mtype = None, timestamp = None, node_id = None, status = None, message = None\<rparr>"

text \<open>The three dicts the code builds with a \<^verbatim>\<open>"type"\<close>, \<^verbatim>\<open>"timestamp"\<close> and \<^verbatim>\<open>"node_id"\<close>.\<close>

definition proto_msg :: "string \<Rightarrow> int \<Rightarrow> string \<Rightarrow> msg" where
  "proto_msg typ ts nid = empty_msg\<lparr>mtype := Some typ, timestamp := Some ts, node_id := Some nid\<rparr>"

text \<open>\<^verbatim>\<open>{"type":"ACK"}\<close>\<close>

definition ack_msg :: msg where
  "ack_msg = empty_msg\<lparr>mtype := Some ''ACK''\<rparr>"

text \<open>\<^verbatim>\<open>{"status":"ERR", "message":"unknown type"}\<close>\<close>

definition err_msg :: msg where
  "err_msg = empty_msg\<lparr>status := Some ''ERR'', message := Some ''unknown type''\<rparr>"

text \<open>
  A queue item is the tuple \<^verbatim>\<open>(timestamp, id)\<close>. Python compares tuples
  lexicographically, integers numerically and strings lexicographically by character;
  this is the order of \<^typ>\<open>int \<times> string\<close> here.

  \<^verbatim>\<open>queue.PriorityQueue\<close> belongs to Python's standard library, not to this
  program. The model keeps what the program uses of it: \<^verbatim>\<open>put\<close> adds an item,
  \<^verbatim>\<open>get\<close> takes the smallest item out, \<^verbatim>\<open>empty()\<close> tests for no item, and
  \<^verbatim>\<open>.queue[0]\<close> (the root of the heap) is read as the head. The items are held in the
  order in which \<^verbatim>\<open>get\<close> hands them out.
\<close>

type_synonym item = "int \<times> string"
type_synonym pqueue = "item list"

definition put :: "item \<Rightarrow> pqueue \<Rightarrow> pqueue" where
  "put it q = insort it q"

definition empty_q :: "pqueue \<Rightarrow> bool" where
  "empty_q q = (q = [])"

text \<open>
  The state of one \<^verbatim>\<open>LamportDME\<close> object. The lock and the listener's socket are not
  state of the model: each locked region is one step.
\<close>

record LamportDME =
  my_id :: string
  my_port :: nat
  peers :: "peer list"
  clock :: int
  replies_needed :: "string set"
  replies_event :: bool
  request_queue :: pqueue
  running :: bool

text \<open>\<^verbatim>\<open>__init__\<close>\<close>

definition init :: "string \<Rightarrow> nat \<Rightarrow> peer list \<Rightarrow> LamportDME" where
  "init mid mport ps =
     \<lparr>my_id = mid, my_port = mport, peers = ps, clock = 0, replies_needed = {},
      replies_event = False, request_queue = [], running = True\<rparr>"

section \<open>The logical clock\<close>

text \<open>
  \<^verbatim>\<open>_increment_clock(other_ts=None)\<close>: returns the new clock value and the new state.
\<close>

definition increment_clock :: "int option \<Rightarrow> LamportDME \<Rightarrow> int \<times> LamportDME" where
  "increment_clock other_ts s =
     (let s' = (case other_ts of
                  None \<Rightarrow> s\<lparr>clock := clock s + 1\<rparr>
                | Some t \<Rightarrow> s\<lparr>clock := max (clock s) t + 1\<rparr>)
      in (clock s', s'))"

section \<open>Removal from the request queue\<close>

text \<open>
  The loop \<^verbatim>\<open>while not self.request_queue.empty(): items.append(self.request_queue.get())\<close>:
  it returns the items taken out and the queue that is left.
\<close>

fun drain :: "pqueue \<Rightarrow> item list \<Rightarrow> item list \<times> pqueue" where
  "drain [] items = (items, [])"
| "drain (it # q) items = drain q (items @ [it])"

text \<open>
  \<^verbatim>\<open>_remove_request(nid, ts)\<close>: empty the queue, keep the items whose second component
  differs from \<^verbatim>\<open>nid\<close>, put them back. The argument \<^verbatim>\<open>ts\<close> is not read.
\<close>

definition remove_request :: "string \<Rightarrow> int \<Rightarrow> pqueue \<Rightarrow> pqueue" where
  "remove_request nid ts q =
     (let (items, q0) = drain q [];
          items' = filter (\<lambda>it. snd it \<noteq> nid) items
      in foldl (\<lambda>q' it. put it q') q0 items')"

text \<open>
  The head as \<^verbatim>\<open>request_critical_section\<close> reads it:
  \<^verbatim>\<open>if not self.request_queue.empty(): head_ts, head_id = self.request_queue.queue[0]\<close>.
\<close>

definition peek_head :: "pqueue \<Rightarrow> item option" where
  "peek_head q = (if empty_q q then None else Some (hd q))"

text \<open>
  The operations that change the request queue anywhere in the program:
  \<^verbatim>\<open>request_queue.put\<close> and \<^verbatim>\<open>_remove_request\<close>. A queue of the running program
  is the empty queue of \<^verbatim>\<open>__init__\<close> after a sequence of them.
\<close>

datatype queue_op = Put item | Remove_request string int

fun apply_queue_op :: "pqueue \<Rightarrow> queue_op \<Rightarrow> pqueue" where
  "apply_queue_op q (Put it) = put it q"
| "apply_queue_op q (Remove_request nid ts) = remove_request nid ts q"

definition queue_after :: "queue_op list \<Rightarrow> pqueue" where
  "queue_after ops = foldl apply_queue_op [] ops"

section \<open>The message listener\<close>

text \<open>
  What one accepted connection delivers: nothing (\<^verbatim>\<open>recv\<close> returns the empty string),
  bytes that \<^verbatim>\<open>json.loads\<close> rejects, or a decoded message.
\<close>

datatype inbound = No_data | Undecodable | Decoded msg

text \<open>
  \<^verbatim>\<open>ts = msg["timestamp"]; nid = msg["node_id"]\<close>: a missing key raises \<^verbatim>\<open>KeyError\<close>,
  here \<open>None\<close>.
\<close>

definition read_fields :: "msg \<Rightarrow> (int \<times> string) option" where
  "read_fields m =
     (case timestamp m of
        None \<Rightarrow> None
      | Some ts \<Rightarrow> (case node_id m of None \<Rightarrow> None | Some nid \<Rightarrow> Some (ts, nid)))"

text \<open>
  The body of the loop of \<^verbatim>\<open>_listener\<close> for one connection. The result is the new
  state and what is passed to \<^verbatim>\<open>conn.sendall\<close>; \<open>None\<close> is the connection left without
  an answer (no data, or an exception that the \<^verbatim>\<open>except\<close> clause swallows).
\<close>

definition listener_body :: "LamportDME \<Rightarrow> inbound \<Rightarrow> LamportDME \<times> msg option" where
  "listener_body s d =
     (case d of
        No_data \<Rightarrow> (s, None)
      | Undecodable \<Rightarrow> (s, None)
      | Decoded m \<Rightarrow>
          (let typ = mtype m in
           if typ = Some ''REQUEST'' then
             (case read_fields m of
                None \<Rightarrow> (s, None)
              | Some (ts, nid) \<Rightarrow>
                  (let (_, s1) = increment_clock (Some ts) s;
                       s2 = s1\<lparr>request_queue := put (ts, nid) (request_queue s1)\<rparr>;
                       (c, s3) = increment_clock None s2;
                       reply = proto_msg ''REPLY'' c (my_id s3)
                   in (s3, Some reply)))
           else if typ = Some ''RELEASE'' then
             (case read_fields m of
                None \<Rightarrow> (s, None)
              | Some (ts, nid) \<Rightarrow>
                  (let (_, s1) = increment_clock (Some ts) s;
                       s2 = s1\<lparr>request_queue := remove_request nid ts (request_queue s1)\<rparr>
                   in (s2, Some ack_msg)))
           else if typ = Some ''REPLY'' then
             (case read_fields m of
                None \<Rightarrow> (s, None)
              | Some (ts, nid) \<Rightarrow>
                  (let (_, s1) = increment_clock (Some ts) s;
                       s2 = (if nid \<in> replies_needed s1
                             then (let s' = s1\<lparr>replies_needed := replies_needed s1 - {nid}\<rparr>
                                   in if replies_needed s' = {} then s'\<lparr>replies_event := True\<rparr>
                                      else s')
                             else s1)
                   in (s2, Some ack_msg)))
           else (s, Some err_msg)))"

text \<open>\<^verbatim>\<open>stop()\<close>, called from another thread.\<close>

definition stop :: "LamportDME \<Rightarrow> LamportDME" where
  "stop s = s\<lparr>running := False\<rparr>"

text \<open>
  What happens to the listener thread, in the order of time: a connection arrives, or
  another thread calls \<^verbatim>\<open>stop()\<close>.
\<close>

datatype event = Connection inbound | Stop_called

text \<open>
  The listener holds \<^verbatim>\<open>self.lock\<close> only inside \<^verbatim>\<open>_increment_clock\<close> and around the
  update of \<^verbatim>\<open>replies_needed\<close>; \<^verbatim>\<open>_remove_request\<close> and \<^verbatim>\<open>request_queue.put\<close>
  run without it. So another thread can see the state between any two of the listener's
  steps. The functions below list the states that one connection produces, step by step.

  The queue after each \<^verbatim>\<open>get()\<close> of the loop that empties it:
\<close>

fun got :: "pqueue \<Rightarrow> pqueue list" where
  "got [] = []"
| "got (it # q) = q # got q"

text \<open>The queue after each \<^verbatim>\<open>put(it)\<close> of the loop \<^verbatim>\<open>for it in items\<close>:\<close>

fun put_back :: "pqueue \<Rightarrow> item list \<Rightarrow> pqueue list" where
  "put_back q [] = []"
| "put_back q (it # items) = put it q # put_back (put it q) items"

text \<open>The queue after each step of \<^verbatim>\<open>_remove_request(nid, ts)\<close>.\<close>

definition remove_request_steps :: "string \<Rightarrow> int \<Rightarrow> pqueue \<Rightarrow> pqueue list" where
  "remove_request_steps nid ts q =
     (let (items, q0) = drain q [];
          items' = filter (\<lambda>it. snd it \<noteq> nid) items
      in got q @ put_back q0 items')"

text \<open>
  The state after each step of the body of the loop of \<^verbatim>\<open>_listener\<close> for one connection:
  the tick, the \<^verbatim>\<open>put\<close> and the second tick of a REQUEST; the tick of a RELEASE and
  every \<^verbatim>\<open>get\<close> and \<^verbatim>\<open>put\<close> of its removal; the tick and the locked update of a
  REPLY. A connection that changes no state has no step.
\<close>

definition listener_steps :: "LamportDME \<Rightarrow> inbound \<Rightarrow> LamportDME list" where
  "listener_steps s d =
     (case d of
        No_data \<Rightarrow> []
      | Undecodable \<Rightarrow> []
      | Decoded m \<Rightarrow>
          (let typ = mtype m in
           if typ = Some ''REQUEST'' then
             (case read_fields m of
                None \<Rightarrow> []
              | Some (ts, nid) \<Rightarrow>
                  (let (_, s1) = increment_clock (Some ts) s;
                       s2 = s1\<lparr>request_queue := put (ts, nid) (request_queue s1)\<rparr>;
                       (c, s3) = increment_clock None s2
                   in [s1, s2, s3]))
           else if typ = Some ''RELEASE'' then
             (case read_fields m of
                None \<Rightarrow> []
              | Some (ts, nid) \<Rightarrow>
                  (let (_, s1) = increment_clock (Some ts) s
                   in s1 # map (\<lambda>q. s1\<lparr>request_queue := q\<rparr>)
                             (remove_request_steps nid ts (request_queue s1))))
           else if typ = Some ''REPLY'' then
             (case read_fields m of
                None \<Rightarrow> []
              | Some (ts, nid) \<Rightarrow>
                  (let (_, s1) = increment_clock (Some ts) s;
                       s2 = (if nid \<in> replies_needed s1
                             then (let s' = s1\<lparr>replies_needed := replies_needed s1 - {nid}\<rparr>
                                   in if replies_needed s' = {} then s'\<lparr>replies_event := True\<rparr>
                                      else s')
                             else s1)
                   in [s1, s2]))
           else []))"

text \<open>
  The listener blocked in \<^verbatim>\<open>s.accept()\<close>. The test \<^verbatim>\<open>while self.running\<close> comes before
  the call of \<^verbatim>\<open>accept\<close>, so after \<^verbatim>\<open>stop()\<close> the connection that arrives next is
  still served, and the loop ends at the test after it. The result is the states after
  each step, in the order of time, and the answers sent.
\<close>

fun accept :: "LamportDME \<Rightarrow> event list \<Rightarrow> LamportDME list \<times> msg option list" where
  "accept s [] = ([], [])"
| "accept s (Stop_called # evs) =
     (let (tr, outs) = accept (stop s) evs in (stop s # tr, outs))"
| "accept s (Connection d # evs) =
     (let (s1, out) = listener_body s d;
          (tr, outs) = (if running s1 then accept s1 evs else ([], []))
      in (listener_steps s d @ tr, out # outs))"

text \<open>The loop \<^verbatim>\<open>while self.running\<close> of \<^verbatim>\<open>_listener\<close>, from its first test.\<close>

definition listener :: "LamportDME \<Rightarrow> event list \<Rightarrow> LamportDME list \<times> msg option list" where
  "listener s evs = (if running s then accept s evs else ([], []))"

section \<open>The peer communicator\<close>

text \<open>
  What the network does to one \<^verbatim>\<open>_send_to_peer\<close>: the peer answers with a message, the
  exchange ends without data to read, or some step raises (connection refused, timeout,
  reset, an answer that does not decode).
\<close>

datatype net = Responded msg | No_response | Failed

text \<open>
  \<^verbatim>\<open>_send_to_peer(peer, msg, expect_response)\<close>: the new state and the value returned,
  \<open>None\<close> for Python's \<^verbatim>\<open>None\<close>. The timeout of the socket is part of the outcome
  \<open>Failed\<close>.
\<close>

definition send_to_peer ::
  "LamportDME \<Rightarrow> peer \<Rightarrow> msg \<Rightarrow> bool \<Rightarrow> net \<Rightarrow> LamportDME \<times> msg option" where
  "send_to_peer s p m expect_response n =
     (case n of
        Failed \<Rightarrow> (s\<lparr>replies_needed := replies_needed s - {peer_id p}\<rparr>, None)
      | Responded r \<Rightarrow> (if expect_response then (s, Some r) else (s, None))
      | No_response \<Rightarrow> (s, None))"

text \<open>
  The loop \<^verbatim>\<open>for p in self.peers: self._send_to_peer(p, m, expect_response=True)\<close> of
  both broadcasts; the value returned by each send is dropped, as in the source.
\<close>

fun send_all :: "LamportDME \<Rightarrow> peer list \<Rightarrow> msg \<Rightarrow> (peer \<Rightarrow> net) \<Rightarrow> LamportDME" where
  "send_all s [] m nw = s"
| "send_all s (p # ps) m nw = send_all (fst (send_to_peer s p m True (nw p))) ps m nw"

section \<open>The coordinator\<close>

text \<open>
  \<^verbatim>\<open>request_critical_section\<close> up to the end of the broadcast: tick, enqueue the own
  request, reset \<^verbatim>\<open>replies_needed\<close>, send REQUEST to every peer.
\<close>

definition request_send :: "LamportDME \<Rightarrow> (peer \<Rightarrow> net) \<Rightarrow> int \<times> LamportDME" where
  "request_send s nw =
     (let (ts, s1) = increment_clock None s;
          s2 = s1\<lparr>request_queue := put (ts, my_id s1) (request_queue s1)\<rparr>;
          s3 = s2\<lparr>replies_needed := set (map peer_id (peers s2))\<rparr>;
          req_msg = proto_msg ''REQUEST'' ts (my_id s3)
      in (ts, send_all s3 (peers s3) req_msg nw))"

text \<open>
  While \<^verbatim>\<open>request_critical_section\<close> waits it changes no shared state, so the states
  that it can read are the present one and, as the listener goes on, those that the
  listener produces. A view is the present state and the states still to come; to advance
  by \<open>n\<close> is to let the listener take \<open>n\<close> steps.
\<close>

type_synonym view = "LamportDME \<times> LamportDME list"

definition advance :: "nat \<Rightarrow> view \<Rightarrow> view" where
  "advance n v = (last (fst v # take n (snd v)), drop n (snd v))"

text \<open>
  One pass of the loop \<^verbatim>\<open>while True\<close>: how many steps the listener takes before each
  read of the pass (\<^verbatim>\<open>replies_needed\<close>, \<^verbatim>\<open>empty()\<close> and \<^verbatim>\<open>queue[0]\<close>, and the two
  again in the fallback), and the two readings of \<^verbatim>\<open>time.time()\<close> (as real numbers; the
  rounding of floating point is not modelled). In the fallback the caller holds
  \<^verbatim>\<open>self.lock\<close>, which keeps the listener from a tick but not from a \<^verbatim>\<open>get\<close> or a
  \<^verbatim>\<open>put\<close>; the model lets the listener take any step there.
\<close>

record pass =
  steps_before_replies :: nat
  steps_before_empty :: nat
  steps_before_head :: nat
  now :: real
  steps_before_fallback_empty :: nat
  steps_before_fallback_head :: nat
  now_restart :: real

text \<open>
  \<^verbatim>\<open>head_id == self.my_id and head_ts == ts\<close> on a non-empty queue.
\<close>

definition head_ok :: "LamportDME \<Rightarrow> int \<Rightarrow> bool" where
  "head_ok s ts =
     (case peek_head (request_queue s) of
        None \<Rightarrow> False
      | Some (head_ts, head_id) \<Rightarrow> head_id = my_id s \<and> head_ts = ts)"

text \<open>
  The head test of lines 153 to 157 and 168 to 170, with its two reads of the queue:
  \<^verbatim>\<open>empty()\<close> after \<open>n_empty\<close> steps of the listener and \<^verbatim>\<open>queue[0]\<close> after
  \<open>n_head\<close> more. The result is the value of the test and the view after it; \<open>None\<close> is
  the \<^verbatim>\<open>IndexError\<close> of \<^verbatim>\<open>queue[0]\<close> on a queue that the listener has emptied in
  between.
\<close>

definition read_head :: "int \<Rightarrow> nat \<Rightarrow> nat \<Rightarrow> view \<Rightarrow> (bool \<times> view) option" where
  "read_head ts n_empty n_head v =
     (let v1 = advance n_empty v
      in if empty_q (request_queue (fst v1)) then Some (False, v1)
         else (let v2 = advance n_head v1
               in case request_queue (fst v2) of
                    [] \<Rightarrow> None
                  | (head_ts, head_id) # _ \<Rightarrow>
                      Some (head_id = my_id (fst v2) \<and> head_ts = ts, v2)))"

text \<open>
  How a call of \<^verbatim>\<open>request_critical_section\<close> ends: it returns the ticket, it raises
  \<^verbatim>\<open>IndexError\<close>, or it is still in its loop when the passes given are used up (the
  loop may run forever). With the ticket and the state at the return comes a note that
  the program does not compute: which of the two \<^verbatim>\<open>return ts\<close> was taken, how many
  passes were completed before the returning one, and the value of \<^verbatim>\<open>start\<close> then.
\<close>

record admission =
  by_fallback :: bool
  passes_before :: nat
  start_in_force :: real

datatype wait_result = Admitted int LamportDME admission | Index_error | Still_waiting

text \<open>
  The waiting loop of \<^verbatim>\<open>request_critical_section\<close>; \<open>n\<close> counts the passes completed.
  The sleep of 0.1 s while the event is not set changes no state; what the listener does
  meanwhile is in the pass.
\<close>

fun wait_for_admission ::
  "int \<Rightarrow> real \<Rightarrow> nat \<Rightarrow> pass list \<Rightarrow> view \<Rightarrow> wait_result" where
  "wait_for_admission ts start n [] v = Still_waiting"
| "wait_for_admission ts start n (p # ps) v =
     (let v1 = advance (steps_before_replies p) v;
          have_all_replies = (replies_needed (fst v1) = {})
      in case read_head ts (steps_before_empty p) (steps_before_head p) v1 of
           None \<Rightarrow> Index_error
         | Some (ok, v2) \<Rightarrow>
             if have_all_replies \<and> ok
             then Admitted ts ((fst v2)\<lparr>replies_event := False\<rparr>)
                    \<lparr>by_fallback = False, passes_before = n, start_in_force = start\<rparr>
             else if now p - start > 10 then
               (case read_head ts (steps_before_fallback_empty p)
                       (steps_before_fallback_head p) v2 of
                  None \<Rightarrow> Index_error
                | Some (ok', v3) \<Rightarrow>
                    if ok'
                    then Admitted ts ((fst v3)\<lparr>replies_event := False\<rparr>)
                           \<lparr>by_fallback = True, passes_before = n, start_in_force = start\<rparr>
                    else wait_for_admission ts (now_restart p) (Suc n) ps v3)
             else wait_for_admission ts start (Suc n) ps v2)"

text \<open>
  \<^verbatim>\<open>request_critical_section\<close>; \<open>start\<close> is the first reading of \<^verbatim>\<open>time.time()\<close> and
  \<open>evs\<close> is what happens to the listener thread while the call waits. That thread was
  started by \<^verbatim>\<open>__init__\<close> and is blocked in \<^verbatim>\<open>accept\<close> when the waiting begins (a
  thread that has ended is one to which nothing happens).
\<close>

definition request_critical_section ::
  "LamportDME \<Rightarrow> (peer \<Rightarrow> net) \<Rightarrow> real \<Rightarrow> event list \<Rightarrow> pass list \<Rightarrow> wait_result" where
  "request_critical_section s nw start evs ps =
     (let (ts, s1) = request_send s nw
      in wait_for_admission ts start 0 ps (s1, fst (accept s1 evs)))"


text \<open>
  A state \<open>b\<close> of a node comes after a state \<open>a\<close> while the node waits: the node id is
  the same and the set of outstanding replies has not grown.
\<close>

definition later :: "LamportDME \<Rightarrow> LamportDME \<Rightarrow> bool" where
  "later a b = (my_id b = my_id a \<and> replies_needed b \<subseteq> replies_needed a)"

text \<open>\<^verbatim>\<open>release_critical_section(ts)\<close>\<close>

definition release_critical_section :: "LamportDME \<Rightarrow> int \<Rightarrow> (peer \<Rightarrow> net) \<Rightarrow> LamportDME" where
  "release_critical_section s ts nw =
     (let s1 = s\<lparr>request_queue := remove_request (my_id s) ts (request_queue s)\<rparr>;
          (rts, s2) = increment_clock None s1;
          rel_msg = proto_msg ''RELEASE'' rts (my_id s2)
      in send_all s2 (peers s2) rel_msg nw)"

section \<open>A two-node system\<close>

text \<open>Two nodes that are each other's only peer, and two behaviours of the network.\<close>

definition peer_A :: peer where
  "peer_A = \<lparr>peer_host = ''127.0.0.1'', peer_port = 9101, peer_id = ''A''\<rparr>"

definition peer_B :: peer where
  "peer_B = \<lparr>peer_host = ''127.0.0.1'', peer_port = 9102, peer_id = ''B''\<rparr>"

definition node_A :: LamportDME where
  "node_A = init ''A'' 9101 [peer_B]"

definition node_B :: LamportDME where
  "node_B = init ''B'' 9102 [peer_A]"

definition answers :: "msg \<Rightarrow> peer \<Rightarrow> net" where
  "answers r p = Responded r"

definition unreachable :: "peer \<Rightarrow> net" where
  "unreachable p = Failed"

definition quiet_pass :: "real \<Rightarrow> pass" where
  "quiet_pass t =
     \<lparr>steps_before_replies = 0, steps_before_empty = 0, steps_before_head = 0, now = t,
      steps_before_fallback_empty = 0, steps_before_fallback_head = 0, now_restart = t\<rparr>"

text \<open>
  Node A after its own request with timestamp 1 is enqueued and B is still counted as
  outstanding.
\<close>

definition node_A_waiting :: LamportDME where
  "node_A_waiting =
     node_A\<lparr>clock := 1, replies_needed := {''B''}, request_queue := [(1, ''A'')]\<rparr>"

text \<open>
  A pass before whose first read the listener of A has taken the two steps of a REPLY that
  it was handed as a message of its own.
\<close>

definition pass_with_reply :: pass where
  "pass_with_reply = (quiet_pass 1)\<lparr>steps_before_replies := 2\<rparr>"

text \<open>
  Node A with clock 4, and three passes of its next request: B's REQUEST(2, B) is served
  before the first pass, which finds the window elapsed at 11, B ahead in the queue, and
  restarts the window at 11.5; the second pass at 20 is within the new window; before the
  third pass, at 22, B's RELEASE is served.
\<close>

definition node_A_later :: LamportDME where
  "node_A_later = node_A\<lparr>clock := 4\<rparr>"

definition three_passes :: "pass list" where
  "three_passes =
     [(quiet_pass 11)\<lparr>steps_before_replies := 3, now_restart := 11.5\<rparr>,
      quiet_pass 20,
      (quiet_pass 22)\<lparr>steps_before_replies := 4\<rparr>]"

definition request_then_release :: "event list" where
  "request_then_release =
     [Connection (Decoded (proto_msg ''REQUEST'' 2 ''B'')),
      Connection (Decoded (proto_msg ''RELEASE'' 9 ''B''))]"

text \<open>
  Node A with its request \<open>(2, A)\<close> queued behind \<open>(1, B)\<close> and no reply outstanding,
  while the listener serves a RELEASE of a third node C.
\<close>

definition node_A_behind :: LamportDME where
  "node_A_behind = node_A\<lparr>clock := 2, request_queue := [(1, ''B''), (2, ''A'')]\<rparr>"

definition release_of_C :: "event list" where
  "release_of_C = [Connection (Decoded (proto_msg ''RELEASE'' 7 ''C''))]"

lemmas scenario_defs =
  node_A_def node_B_def peer_A_def peer_B_def init_def answers_def unreachable_def
  quiet_pass_def node_A_waiting_def pass_with_reply_def node_A_later_def three_passes_def
  request_then_release_def node_A_behind_def release_of_C_def

lemmas step_defs =
  listener_body_def read_fields_def increment_clock_def proto_msg_def empty_msg_def ack_msg_def
  err_msg_def put_def send_to_peer_def request_send_def request_critical_section_def
  release_critical_section_def head_ok_def peek_head_def empty_q_def remove_request_def
  queue_after_def listener_steps_def remove_request_steps_def listener_def stop_def
  advance_def read_head_def

section \<open>The clock: claims\<close>

text \<open>
  C5. For every clock value \<open>c\<close>, the tick without an argument sets the clock to
  \<open>c + 1\<close> and returns the new value; the tick with an observed timestamp \<open>t\<close> sets the
  clock to \<open>max c t + 1\<close> and returns the new value. So every call strictly increases
  the clock, and after observing \<open>t\<close> the clock is at least \<open>t + 1\<close>.
\<close>

theorem increment_clock_tick:
  "clock (snd (increment_clock None s)) = clock s + 1
   \<and> fst (increment_clock None s) = clock s + 1
   \<and> clock (snd (increment_clock (Some t) s)) = max (clock s) t + 1
   \<and> fst (increment_clock (Some t) s) = max (clock s) t + 1
   \<and> clock s < clock (snd (increment_clock other_ts s))
   \<and> t + 1 \<le> clock (snd (increment_clock (Some t) s))
   \<and> snd (increment_clock other_ts s) = s\<lparr>clock := fst (increment_clock other_ts s)\<rparr>"
  by (cases other_ts) (simp_all add: increment_clock_def Let_def)

text \<open>The clock of node A at 0 ticks to 1; on observing the timestamp 7 it becomes 8.\<close>

theorem increment_clock_tick_witness:
  "fst (increment_clock None node_A) = 1
   \<and> fst (increment_clock (Some 7) node_A) = 8
   \<and> clock node_A < clock (snd (increment_clock (Some 7) node_A))"
  using increment_clock_tick [of node_A 7 "Some 7"]
  by (simp add: scenario_defs)

section \<open>The request queue: lemmas\<close>

lemma drain_eq: "drain q items = (items @ q, [])"
  by (induction q arbitrary: items) simp_all

lemma sorted_put: "sorted q \<Longrightarrow> sorted (put it q)"
  by (simp add: put_def sorted_insort)

lemma mset_put: "mset (put it q) = add_mset it (mset q)"
  by (simp add: put_def)

lemma sorted_put_all: "sorted q \<Longrightarrow> sorted (foldl (\<lambda>q' it. put it q') q xs)"
  by (induction xs arbitrary: q) (simp_all add: sorted_put)

lemma mset_put_all: "mset (foldl (\<lambda>q' it. put it q') q xs) = mset q + mset xs"
  by (induction xs arbitrary: q) (simp_all add: mset_put)

lemma put_all_sorted_id:
  assumes "sorted xs"
  shows "foldl (\<lambda>q' it. put it q') [] xs = xs"
proof -
  have "sorted (foldl (\<lambda>q' it. put it q') [] xs)"
    by (rule sorted_put_all) simp
  moreover have "mset (foldl (\<lambda>q' it. put it q') [] xs) = mset xs"
    by (simp add: mset_put_all)
  ultimately show ?thesis
    using assms by (metis properties_for_sort)
qed

lemma remove_request_unfold:
  "remove_request nid ts q = foldl (\<lambda>q' it. put it q') [] (filter (\<lambda>it. snd it \<noteq> nid) q)"
  by (simp add: remove_request_def drain_eq)

lemma sorted_remove_request: "sorted (remove_request nid ts q)"
  unfolding remove_request_unfold by (rule sorted_put_all) simp

lemma mset_remove_request:
  "mset (remove_request nid ts q) = filter_mset (\<lambda>it. snd it \<noteq> nid) (mset q)"
  by (simp add: remove_request_unfold mset_put_all)

lemma set_remove_request:
  "set (remove_request nid ts q) = {it \<in> set q. snd it \<noteq> nid}"
proof -
  have "set (remove_request nid ts q) = set_mset (mset (remove_request nid ts q))"
    by simp
  also have "\<dots> = {it \<in> set q. snd it \<noteq> nid}"
    unfolding mset_remove_request by simp
  finally show ?thesis .
qed

lemma remove_request_sorted:
  "sorted q \<Longrightarrow> remove_request nid ts q = filter (\<lambda>it. snd it \<noteq> nid) q"
  unfolding remove_request_unfold by (rule put_all_sorted_id) (simp add: sorted_wrt_filter)

lemma sorted_apply_queue_op: "sorted q \<Longrightarrow> sorted (apply_queue_op q op)"
  by (cases op) (simp_all add: sorted_put sorted_remove_request)

lemma sorted_foldl_queue_op: "sorted q \<Longrightarrow> sorted (foldl apply_queue_op q ops)"
  by (induction ops arbitrary: q) (simp_all add: sorted_apply_queue_op)

lemma sorted_queue_after: "sorted (queue_after ops)"
  unfolding queue_after_def by (rule sorted_foldl_queue_op) simp

lemma peek_head_sorted:
  assumes "sorted q" and "peek_head q = Some h" and "it \<in> set q"
  shows "h \<le> it"
proof (cases q)
  case Nil
  with assms(3) show ?thesis by simp
next
  case (Cons x xs)
  with assms(2) have "h = x" by (simp add: peek_head_def empty_q_def)
  with Cons assms(1,3) show ?thesis by auto
qed

text \<open>The order of the items, written out: timestamps first, node ids on a tie.\<close>

lemma item_le_iff:
  "((ts, nid) \<le> (ts', nid')) = (ts < ts' \<or> (ts = ts' \<and> nid \<le> nid'))"
  for ts ts' :: int and nid nid' :: string
  by (auto simp: less_eq_prod_def)

text \<open>The order of the node ids is lexicographic, character by character.\<close>

lemma node_id_le_iff:
  "([] \<le> ds) = True"
  "(c # cs \<le> []) = False"
  "(c # cs \<le> d # ds) = (c < d \<or> (c = d \<and> cs \<le> ds))"
  for cs ds :: string
  by auto


section \<open>The request queue: claims\<close>

text \<open>
  Against the reading that only the record with both the node id and the timestamp is
  removed: with the records \<open>(3, A)\<close> and \<open>(5, A)\<close> queued, the removal for node A with
  timestamp 5 takes \<open>(3, A)\<close> out as well.
\<close>

theorem remove_request_other_timestamp_counterexample:
  "(3::int, ''A'') \<in> set [(3, ''A''), (5, ''A'')] \<and> (3::int) \<noteq> 5
   \<and> (3, ''A'') \<notin> set (remove_request ''A'' 5 [(3, ''A''), (5, ''A'')])
   \<and> queue_after [Put (3, ''A''), Put (5, ''A'')] = [(3, ''A''), (5, ''A'')]"
  by (simp add: remove_request_def put_def queue_after_def)

text \<open>
  C2 (amended). \<^verbatim>\<open>_remove_request(nid, ts)\<close> removes every record whose node id is
  \<open>nid\<close>, whatever its timestamp, and keeps every record of another node id; the timestamp
  given is not consulted, so a record of the same node with a different timestamp is
  removed as well.
\<close>

theorem remove_request_by_node_id:
  "set (remove_request nid ts q) = {it \<in> set q. snd it \<noteq> nid}
   \<and> remove_request nid ts q = remove_request nid ts' q
   \<and> (sorted q \<longrightarrow> remove_request nid ts q = filter (\<lambda>it. snd it \<noteq> nid) q)"
  by (simp add: set_remove_request remove_request_sorted) (simp add: remove_request_def)

text \<open>On a queue holding two records of A and one of B, either timestamp removes both of A.\<close>

theorem remove_request_by_node_id_witness:
  "sorted [(3::int, ''A''), (4, ''B''), (5, ''A'')]
   \<and> remove_request ''A'' 5 [(3, ''A''), (4, ''B''), (5, ''A'')] = [(4, ''B'')]
   \<and> remove_request ''A'' 5 [(3, ''A''), (4, ''B''), (5, ''A'')]
       = remove_request ''A'' 3 [(3, ''A''), (4, ''B''), (5, ''A'')]"
  using remove_request_by_node_id [of "''A''" 5 "[(3, ''A''), (4, ''B''), (5, ''A'')]" 3]
  by (simp add: remove_request_def put_def)

text \<open>
  Against the reading that a removal for a record that is not queued changes nothing:
  \<open>(5, A)\<close> is not in the queue that holds \<open>(3, A)\<close>, and the removal for node A with
  timestamp 5 empties that queue.
\<close>

theorem remove_request_absent_counterexample:
  "(5::int, ''A'') \<notin> set [(3, ''A'')]
   \<and> remove_request ''A'' 5 [(3, ''A'')] \<noteq> [(3, ''A'')]
   \<and> queue_after [Put (3, ''A'')] = [(3, ''A'')]"
  by (simp add: remove_request_def put_def queue_after_def)

text \<open>
  C8 (amended). A removal for a node id that has no record in the queue leaves the queue
  as it is, and a removal repeated for the same node id (a second release with the same
  ticket, for example) changes nothing more; neither is an error.
\<close>

theorem remove_request_absent_node:
  "(nid \<notin> snd ` set (queue_after ops) \<longrightarrow>
      remove_request nid ts (queue_after ops) = queue_after ops)
   \<and> remove_request nid ts (remove_request nid ts' q) = remove_request nid ts' q"
proof -
  have "remove_request nid ts (queue_after ops) = queue_after ops"
    if "nid \<notin> snd ` set (queue_after ops)"
  proof -
    have "filter (\<lambda>it. snd it \<noteq> nid) (queue_after ops) = queue_after ops"
      using that by (intro filter_True) auto
    then show ?thesis
      by (simp add: remove_request_sorted sorted_queue_after)
  qed
  moreover have "remove_request nid ts (remove_request nid ts' q) = remove_request nid ts' q"
  proof -
    have "remove_request nid ts (remove_request nid ts' q)
          = filter (\<lambda>it. snd it \<noteq> nid) (remove_request nid ts' q)"
      by (rule remove_request_sorted) (rule sorted_remove_request)
    also have "\<dots> = remove_request nid ts' q"
      by (intro filter_True) (simp add: set_remove_request)
    finally show ?thesis .
  qed
  ultimately show ?thesis by blast
qed

text \<open>With only \<open>(3, A)\<close> queued, a removal for B changes nothing; removing A twice is removing A once.\<close>

theorem remove_request_absent_node_witness:
  "''B'' \<notin> snd ` set (queue_after [Put (3, ''A'')])
   \<and> remove_request ''B'' 7 (queue_after [Put (3, ''A'')]) = [(3, ''A'')]
   \<and> remove_request ''A'' 3 (remove_request ''A'' 3 [(3, ''A''), (4, ''B'')]) = [(4, ''B'')]"
  using remove_request_absent_node [of "''B''" "[Put (3, ''A'')]" 7 3 "[]"]
  by (simp add: queue_after_def put_def remove_request_def)

text \<open>
  C10. For every queue and every call of \<^verbatim>\<open>_remove_request\<close> with node id \<open>nid\<close>, the
  multiset of the records of the other node ids is the same before and after; what is
  removed are records of \<open>nid\<close> only.
\<close>

theorem remove_request_frame:
  "filter_mset (\<lambda>it. snd it \<noteq> nid) (mset (remove_request nid ts q))
     = filter_mset (\<lambda>it. snd it \<noteq> nid) (mset q)
   \<and> mset (remove_request nid ts q) \<subseteq># mset q
   \<and> mset q - mset (remove_request nid ts q) = filter_mset (\<lambda>it. snd it = nid) (mset q)"
proof -
  have "mset q = filter_mset (\<lambda>it. snd it \<noteq> nid) (mset q) + filter_mset (\<lambda>it. snd it = nid) (mset q)"
    by (induction q) simp_all
  then have "mset q - filter_mset (\<lambda>it. snd it \<noteq> nid) (mset q) = filter_mset (\<lambda>it. snd it = nid) (mset q)"
    by (metis add_diff_cancel_left')
  then show ?thesis
    by (simp add: mset_remove_request filter_filter_mset)
qed

text \<open>Removing A from the records \<open>(3, A)\<close>, \<open>(4, B)\<close>, \<open>(5, A)\<close> keeps \<open>(4, B)\<close>.\<close>

theorem remove_request_frame_witness:
  "filter_mset (\<lambda>it. snd it \<noteq> ''A'') (mset (remove_request ''A'' 5 [(3, ''A''), (4, ''B''), (5, ''A'')]))
     = {#(4, ''B'')#}"
  using remove_request_frame [of "''A''" 5 "[(3, ''A''), (4, ''B''), (5, ''A'')]"]
  by simp

text \<open>
  C7. The head of the request queue, which \<^verbatim>\<open>request_critical_section\<close> compares with
  its own record, is always a record of the queue that is minimal in the order "timestamp
  ascending, then node id ascending in the lexicographic order"; on the empty queue there
  is no head.
\<close>

theorem peek_head_minimal:
  "(queue_after ops = [] \<longrightarrow> peek_head (queue_after ops) = None)
   \<and> (queue_after ops \<noteq> [] \<longrightarrow>
        (\<exists>ts nid. peek_head (queue_after ops) = Some (ts, nid)
           \<and> (ts, nid) \<in> set (queue_after ops)
           \<and> (\<forall>(ts', nid') \<in> set (queue_after ops). ts < ts' \<or> (ts = ts' \<and> nid \<le> nid'))))"
proof (cases "queue_after ops")
  case Nil
  then show ?thesis by (simp add: peek_head_def empty_q_def)
next
  case (Cons h q)
  obtain ts nid where h: "h = (ts, nid)" by (cases h)
  have ph: "peek_head (queue_after ops) = Some (ts, nid)"
    using Cons h by (simp add: peek_head_def empty_q_def)
  have "ts < ts' \<or> (ts = ts' \<and> nid \<le> nid')"
    if "(ts', nid') \<in> set (queue_after ops)" for ts' nid'
    using peek_head_sorted [OF sorted_queue_after ph that] unfolding item_le_iff .
  then have "\<forall>(ts', nid') \<in> set (queue_after ops). ts < ts' \<or> (ts = ts' \<and> nid \<le> nid')"
    by blast
  with ph Cons h show ?thesis by auto
qed

text \<open>
  Four requests, one of them withdrawn: the head is \<open>(3, B)\<close>, before \<open>(3, C)\<close> and
  \<open>(5, A)\<close>.
\<close>

theorem peek_head_minimal_witness:
  "queue_after [Put (5, ''A''), Put (3, ''C''), Put (3, ''B''), Put (3, ''Ba''), Remove_request ''Ba'' 9] \<noteq> []
   \<and> peek_head (queue_after [Put (5, ''A''), Put (3, ''C''), Put (3, ''B''), Put (3, ''Ba''), Remove_request ''Ba'' 9]) = Some (3, ''B'')
   \<and> queue_after [] = [] \<and> peek_head (queue_after []) = None"
  using peek_head_minimal [of "[Put (5, ''A''), Put (3, ''C''), Put (3, ''B''), Put (3, ''Ba''), Remove_request ''Ba'' 9]"]
    peek_head_minimal [of "[]"]
  by (simp add: queue_after_def put_def remove_request_def peek_head_def empty_q_def)


section \<open>The listener, the communicator and the coordinator: lemmas\<close>

lemma listener_body_frame:
  "my_id (fst (listener_body s d)) = my_id s
   \<and> peers (fst (listener_body s d)) = peers s
   \<and> running (fst (listener_body s d)) = running s
   \<and> replies_needed (fst (listener_body s d)) \<subseteq> replies_needed s"
  by (auto simp: listener_body_def increment_clock_def Let_def
           split: inbound.splits option.splits prod.splits)

text \<open>The steps of a removal end in the queue that the removal returns.\<close>

lemma got_last: "last (q # got q) = []"
  by (induction q) simp_all

lemma put_back_last: "last (q # put_back q items) = foldl (\<lambda>q' it. put it q') q items"
  by (induction items arbitrary: q) simp_all

lemma last_Cons_append: "last (x # xs @ ys) = last (last (x # xs) # ys)"
  by (cases ys) simp_all

lemma remove_request_steps_last:
  "last (q # remove_request_steps nid ts q) = remove_request nid ts q"
proof -
  let ?items = "filter (\<lambda>it. snd it \<noteq> nid) q"
  have "last (q # got q @ put_back [] ?items) = last (last (q # got q) # put_back [] ?items)"
    by (rule last_Cons_append)
  also have "\<dots> = foldl (\<lambda>q' it. put it q') [] ?items"
    by (simp only: got_last put_back_last)
  finally show ?thesis
    by (simp add: remove_request_steps_def remove_request_unfold drain_eq)
qed

text \<open>The steps of one connection end in the state that \<open>listener_body\<close> returns.\<close>

text \<open>The steps of one connection, written out.\<close>

lemma listener_steps_no_fields:
  "read_fields m = None \<Longrightarrow> listener_steps s (Decoded m) = []"
  by (simp add: listener_steps_def Let_def)

lemma listener_steps_decoded:
  assumes "read_fields m = Some (ts, nid)"
    and "s1 = s\<lparr>clock := max (clock s) ts + 1\<rparr>"
  shows "listener_steps s (Decoded m) =
    (if mtype m = Some ''REQUEST''
     then [s1, s1\<lparr>request_queue := put (ts, nid) (request_queue s)\<rparr>,
           s1\<lparr>request_queue := put (ts, nid) (request_queue s), clock := clock s1 + 1\<rparr>]
     else if mtype m = Some ''RELEASE''
     then s1 # map (\<lambda>q. s1\<lparr>request_queue := q\<rparr>)
                 (remove_request_steps nid ts (request_queue s))
     else if mtype m = Some ''REPLY''
     then [s1, s1\<lparr>replies_needed := replies_needed s - {nid},
                 replies_event := (replies_event s
                   \<or> (nid \<in> replies_needed s \<and> replies_needed s - {nid} = {}))\<rparr>]
     else [])"
  using assms by (simp add: listener_steps_def increment_clock_def Let_def)

lemma rel_last:
  "q0 = request_queue s1 \<Longrightarrow>
   last (s1 # map (\<lambda>q. s1\<lparr>request_queue := q\<rparr>) (remove_request_steps nid ts q0))
     = s1\<lparr>request_queue := last (q0 # remove_request_steps nid ts q0)\<rparr>"
  by (cases "remove_request_steps nid ts q0 = []") (simp_all add: last_map)

lemma listener_steps_last: "last (s # listener_steps s d) = fst (listener_body s d)"
proof (cases d)
  case (Decoded m)
  show ?thesis
  proof (cases "read_fields m")
    case None
    then have "fst (listener_body s d) = s"
      using Decoded by (simp add: listener_body_def Let_def)
    with None Decoded show ?thesis
      by (simp add: listener_steps_no_fields)
  next
    case (Some tn)
    obtain ts nid where tn: "read_fields m = Some (ts, nid)"
      using Some by (cases tn) simp
    define s1 where "s1 = s\<lparr>clock := max (clock s) ts + 1\<rparr>"
    have body: "fst (listener_body s d) =
        (if mtype m = Some ''REQUEST''
         then s1\<lparr>request_queue := put (ts, nid) (request_queue s), clock := clock s1 + 1\<rparr>
         else if mtype m = Some ''RELEASE''
         then s1\<lparr>request_queue := remove_request nid ts (request_queue s)\<rparr>
         else if mtype m = Some ''REPLY''
         then s1\<lparr>replies_needed := replies_needed s - {nid},
                 replies_event := (replies_event s
                   \<or> (nid \<in> replies_needed s \<and> replies_needed s - {nid} = {}))\<rparr>
         else s)"
      using Decoded tn
      by (simp add: listener_body_def increment_clock_def Let_def s1_def)
    have rel: "last (s1 # map (\<lambda>q. s1\<lparr>request_queue := q\<rparr>)
                 (remove_request_steps nid ts (request_queue s)))
               = s1\<lparr>request_queue := remove_request nid ts (request_queue s)\<rparr>"
    proof -
      have "request_queue s = request_queue s1"
        by (simp add: s1_def)
      from rel_last [OF this] show ?thesis
        by (simp only: remove_request_steps_last)
    qed
    have skip: "last (s # c # xs) = last (c # xs)" for c and xs :: "LamportDME list"
      by simp
    show ?thesis
      unfolding Decoded listener_steps_decoded [OF tn s1_def] body [unfolded Decoded]
      by (simp only: skip rel split: if_splits) simp
  qed
next
  case No_data
  then show ?thesis
    by (simp add: listener_steps_def listener_body_def)
next
  case Undecodable
  then show ?thesis
    by (simp add: listener_steps_def listener_body_def)
qed

text \<open>States in the order of time: each comes after the ones before it.\<close>

lemma later_refl [simp]: "later a a"
  by (simp add: later_def)

lemma later_trans: "later a b \<Longrightarrow> later b c \<Longrightarrow> later a c"
  by (auto simp: later_def)

lemma later_event [simp]: "later a (b\<lparr>replies_event := e\<rparr>) = later a b"
  by (simp add: later_def)

lemma chain_last:
  "sorted_wrt later xs \<Longrightarrow> a \<in> set xs \<Longrightarrow> later a (last xs)"
proof (induction xs)
  case Nil
  then show ?case by simp
next
  case (Cons x xs)
  show ?case
  proof (cases "xs = []")
    case True
    with Cons.prems show ?thesis by simp
  next
    case False
    then have l: "last (x # xs) = last xs" and m: "last xs \<in> set xs"
      by simp_all
    show ?thesis
    proof (cases "a \<in> set xs")
      case True
      with Cons l show ?thesis by simp
    next
      case False
      with Cons.prems have "a = x" "\<forall>y \<in> set xs. later x y"
        by simp_all
      with l m show ?thesis by simp
    qed
  qed
qed

lemma chain_append:
  assumes "sorted_wrt later (x # xs)" and "sorted_wrt later (last (x # xs) # ys)"
  shows "sorted_wrt later (x # xs @ ys)"
proof -
  have "later a b" if "a \<in> set (x # xs)" and "b \<in> set ys" for a b
  proof -
    have "later a (last (x # xs))"
      using chain_last [OF assms(1) that(1)] .
    moreover have "later (last (x # xs)) b"
      using assms(2) that(2) by simp
    ultimately show ?thesis
      by (rule later_trans)
  qed
  moreover have "sorted_wrt later ys"
    using assms(2) by simp
  ultimately have "sorted_wrt later ((x # xs) @ ys)"
    using assms(1) unfolding sorted_wrt_append by blast
  then show ?thesis by simp
qed

lemma rel_chain:
  "sorted_wrt later (map (\<lambda>q. s1\<lparr>request_queue := q\<rparr>) qs)"
  by (simp add: sorted_wrt_map later_def)

lemma listener_steps_chain: "sorted_wrt later (s # listener_steps s d)"
proof (cases d)
  case (Decoded m)
  show ?thesis
  proof (cases "read_fields m")
    case None
    with Decoded show ?thesis
      by (simp add: listener_steps_no_fields)
  next
    case (Some tn)
    obtain ts nid where tn: "read_fields m = Some (ts, nid)"
      using Some by (cases tn) simp
    define s1 where "s1 = s\<lparr>clock := max (clock s) ts + 1\<rparr>"
    have l: "later s s1" "later s1 (s1\<lparr>request_queue := q\<rparr>)"
      "later s (s1\<lparr>request_queue := q\<rparr>)" for q
      by (simp_all add: later_def s1_def)
    show ?thesis
      unfolding Decoded listener_steps_decoded [OF tn s1_def]
      using l by (auto simp: rel_chain later_def s1_def)
  qed
next
  case No_data
  then have "listener_steps s d = []"
    by (simp add: listener_steps_def)
  then show ?thesis by simp
next
  case Undecodable
  then have "listener_steps s d = []"
    by (simp add: listener_steps_def)
  then show ?thesis by simp
qed

lemma accept_chain: "sorted_wrt later (s # fst (accept s evs))"
proof (induction evs arbitrary: s)
  case Nil
  show ?case by simp
next
  case (Cons ev evs)
  show ?case
  proof (cases ev)
    case Stop_called
    have "sorted_wrt later [s, stop s]"
      by (simp add: later_def stop_def)
    moreover have "sorted_wrt later (last [s, stop s] # fst (accept (stop s) evs))"
      using Cons.IH [of "stop s"] by simp
    ultimately have "sorted_wrt later (s # [stop s] @ fst (accept (stop s) evs))"
      by (rule chain_append)
    then show ?thesis
      using Stop_called by (simp add: split_def Let_def)
  next
    case (Connection d)
    define s1 where "s1 = fst (listener_body s d)"
    define tr where "tr = (if running s1 then fst (accept s1 evs) else [])"
    have "sorted_wrt later (s1 # tr)"
      using Cons.IH [of s1] by (simp add: tr_def)
    then have "sorted_wrt later (last (s # listener_steps s d) # tr)"
      by (simp only: listener_steps_last s1_def)
    with listener_steps_chain have "sorted_wrt later (s # listener_steps s d @ tr)"
      by (rule chain_append)
    moreover have "fst (accept s (ev # evs)) = listener_steps s d @ tr"
      using Connection by (simp add: split_def Let_def s1_def tr_def)
    ultimately show ?thesis by simp
  qed
qed

lemma listener_chain: "sorted_wrt later (s # fst (listener s evs))"
  using accept_chain [of s evs] by (simp add: listener_def)


lemma head_ok_event [simp]: "head_ok (s\<lparr>replies_event := b\<rparr>) ts = head_ok s ts"
  by (auto simp: head_ok_def split: option.splits)

lemma head_ok_peek: "head_ok s ts \<Longrightarrow> peek_head (request_queue s) = Some (ts, my_id s)"
  by (auto simp: head_ok_def split: option.splits)



lemma send_all_eq:
  "send_all s ps m nw =
     s\<lparr>replies_needed := replies_needed s - peer_id ` {p \<in> set ps. nw p = Failed}\<rparr>"
proof (induction ps arbitrary: s)
  case Nil
  show ?case by simp
next
  case (Cons p ps)
  show ?case
  proof (cases "nw p")
    case Failed
    have "replies_needed s - {peer_id p} - peer_id ` {q \<in> set ps. nw q = Failed}
          = replies_needed s - peer_id ` {q \<in> set (p # ps). nw q = Failed}"
      using Failed by auto
    then show ?thesis using Failed by (simp add: Cons.IH send_to_peer_def)
  next
    case (Responded r)
    have "{q \<in> set (p # ps). nw q = Failed} = {q \<in> set ps. nw q = Failed}"
      using Responded by auto
    then show ?thesis using Responded by (simp add: Cons.IH send_to_peer_def)
  next
    case No_response
    have "{q \<in> set (p # ps). nw q = Failed} = {q \<in> set ps. nw q = Failed}"
      using No_response by auto
    then show ?thesis using No_response by (simp add: Cons.IH send_to_peer_def)
  qed
qed

lemma request_send_eq:
  "request_send s nw =
     (clock s + 1,
      s\<lparr>clock := clock s + 1,
        request_queue := put (clock s + 1, my_id s) (request_queue s),
        replies_needed := peer_id ` set (peers s) - peer_id ` {p \<in> set (peers s). nw p = Failed}\<rparr>)"
  by (simp add: request_send_def increment_clock_def Let_def send_all_eq)

lemma release_critical_section_eq:
  "release_critical_section s ts nw =
     s\<lparr>request_queue := remove_request (my_id s) ts (request_queue s),
       clock := clock s + 1,
       replies_needed := replies_needed s - peer_id ` {p \<in> set (peers s). nw p = Failed}\<rparr>"
  by (simp add: release_critical_section_def increment_clock_def Let_def send_all_eq)

text \<open>Every operation keeps the queue in the order in which the head is its least record.\<close>

lemma sorted_listener_body:
  "sorted (request_queue s) \<Longrightarrow> sorted (request_queue (fst (listener_body s d)))"
  by (auto simp: listener_body_def increment_clock_def Let_def sorted_put sorted_remove_request
           split: inbound.splits option.splits prod.splits)

lemma sorted_request_send:
  "sorted (request_queue s) \<Longrightarrow> sorted (request_queue (snd (request_send s nw)))"
  by (simp add: request_send_eq sorted_put)

lemma sorted_release_critical_section:
  "sorted (request_queue (release_critical_section s ts nw))"
  by (simp add: release_critical_section_eq sorted_remove_request)

lemma sorted_got: "sorted q \<Longrightarrow> q' \<in> set (got q) \<Longrightarrow> sorted q'"
  by (induction q) auto

lemma sorted_put_back: "sorted q \<Longrightarrow> q' \<in> set (put_back q items) \<Longrightarrow> sorted q'"
proof (induction items arbitrary: q)
  case Nil
  then show ?case by simp
next
  case (Cons it items)
  from Cons.prems(2) consider "q' = put it q" | "q' \<in> set (put_back (put it q) items)"
    by auto
  then show ?case
  proof cases
    case 1
    with Cons.prems(1) show ?thesis by (simp add: sorted_put)
  next
    case 2
    with Cons.IH [of "put it q"] Cons.prems(1) show ?thesis by (simp add: sorted_put)
  qed
qed

lemma sorted_remove_request_steps:
  assumes "sorted q" and "q' \<in> set (remove_request_steps nid ts q)"
  shows "sorted q'"
proof -
  from assms(2) consider "q' \<in> set (got q)"
    | "q' \<in> set (put_back [] (filter (\<lambda>it. snd it \<noteq> nid) q))"
    by (auto simp: remove_request_steps_def drain_eq)
  then show ?thesis
  proof cases
    case 1
    with assms(1) show ?thesis by (rule sorted_got)
  next
    case 2
    show ?thesis by (rule sorted_put_back [OF _ 2]) simp
  qed
qed


lemma sorted_listener_steps:
  assumes "sorted (request_queue s)" and "c \<in> set (listener_steps s d)"
  shows "sorted (request_queue c)"
proof (cases d)
  case (Decoded m)
  show ?thesis
  proof (cases "read_fields m")
    case None
    with Decoded assms(2) show ?thesis
      by (simp add: listener_steps_no_fields)
  next
    case (Some tn)
    obtain ts nid where tn: "read_fields m = Some (ts, nid)"
      using Some by (cases tn) simp
    define s1 where "s1 = s\<lparr>clock := max (clock s) ts + 1\<rparr>"
    have "sorted q" if "q \<in> set (remove_request_steps nid ts (request_queue s))" for q
      using assms(1) that by (rule sorted_remove_request_steps)
    then show ?thesis
      using assms unfolding Decoded listener_steps_decoded [OF tn s1_def]
      by (auto simp: s1_def sorted_put split: if_splits)
  qed
next
  case No_data
  with assms(2) show ?thesis
    by (simp add: listener_steps_def)
next
  case Undecodable
  with assms(2) show ?thesis
    by (simp add: listener_steps_def)
qed

lemma sorted_accept:
  "sorted (request_queue s) \<Longrightarrow> \<forall>c \<in> set (fst (accept s evs)). sorted (request_queue c)"
proof (induction evs arbitrary: s)
  case Nil
  show ?case by simp
next
  case (Cons ev evs)
  show ?case
  proof (cases ev)
    case Stop_called
    have "sorted (request_queue (stop s))"
      using Cons.prems by (simp add: stop_def)
    from Cons.IH [OF this] this Stop_called show ?thesis
      by (simp add: split_def Let_def)
  next
    case (Connection d)
    have "sorted (request_queue (fst (listener_body s d)))"
      using Cons.prems by (rule sorted_listener_body)
    from Cons.IH [OF this] sorted_listener_steps [OF Cons.prems, of _ d] Connection
    show ?thesis
      by (auto simp: split_def Let_def)
  qed
qed

lemma sorted_listener:
  "sorted (request_queue s) \<Longrightarrow> \<forall>c \<in> set (fst (listener s evs)). sorted (request_queue c)"
  by (simp add: listener_def sorted_accept)

text \<open>In a state whose queue is in order, the record that passes the head test is a least one.\<close>

lemma head_ok_least:
  assumes "sorted (request_queue s)" and "head_ok s ts" and "it \<in> set (request_queue s)"
  shows "(ts, my_id s) \<le> it"
  using peek_head_sorted [OF assms(1) head_ok_peek [OF assms(2)] assms(3)] .

text \<open>
  What the listener does with a REPLY that reaches it as a message of its own: the clock
  becomes \<open>max clock ts + 1\<close>, the sender leaves \<^verbatim>\<open>replies_needed\<close> if it is there,
  and the event is set when that empties the set.
\<close>

lemma listener_body_reply:
  "listener_body s (Decoded (proto_msg ''REPLY'' ts nid)) =
     (s\<lparr>clock := max (clock s) ts + 1,
        replies_needed := replies_needed s - {nid},
        replies_event := (replies_event s \<or> (nid \<in> replies_needed s \<and> replies_needed s - {nid} = {}))\<rparr>,
      Some ack_msg)"
  by (simp add: listener_body_def read_fields_def increment_clock_def proto_msg_def
      empty_msg_def Let_def)

text \<open>
  A send that is answered changes no state: the answer is the value returned by
  \<^verbatim>\<open>_send_to_peer\<close>, and the broadcasts drop it.
\<close>

lemma request_send_all_answer:
  assumes "\<forall>p \<in> set (peers s). nw p \<noteq> Failed"
  shows "request_send s nw =
     (clock s + 1,
      s\<lparr>clock := clock s + 1,
        request_queue := put (clock s + 1, my_id s) (request_queue s),
        replies_needed := peer_id ` set (peers s)\<rparr>)"
proof -
  have e: "peer_id ` {p \<in> set (peers s). nw p = Failed} = {}"
    using assms by auto
  show ?thesis
    unfolding request_send_eq e by simp
qed


section \<open>The listener: claims\<close>

text \<open>
  C6. For every inbound REQUEST with timestamp \<open>ts\<close> and node id \<open>nid\<close>, in every state
  (whether or not the node has a request of its own pending), the listener sets the clock
  to \<open>max clock ts + 1\<close>, puts \<open>(ts, nid)\<close> into the request queue, ticks the clock once
  more and answers on the same connection with one REPLY that carries the ticked value
  and the node's own id.
\<close>

theorem listener_request_reply:
  "mtype m = Some ''REQUEST'' \<Longrightarrow> timestamp m = Some ts \<Longrightarrow> node_id m = Some nid \<Longrightarrow>
   listener_body s (Decoded m) =
     (s\<lparr>clock := (max (clock s) ts + 1) + 1,
        request_queue := put (ts, nid) (request_queue s)\<rparr>,
      Some (proto_msg ''REPLY'' ((max (clock s) ts + 1) + 1) (my_id s)))"
  by (simp add: listener_body_def read_fields_def increment_clock_def Let_def)

text \<open>
  Node B with clock 7 and its own request \<open>(2, B)\<close> pending receives REQUEST(1, A): the
  clock becomes 9, \<open>(1, A)\<close> is queued ahead, and REPLY(9, B) is the answer.
\<close>

theorem listener_request_reply_witness:
  "mtype (proto_msg ''REQUEST'' 1 ''A'') = Some ''REQUEST''
   \<and> timestamp (proto_msg ''REQUEST'' 1 ''A'') = Some 1
   \<and> node_id (proto_msg ''REQUEST'' 1 ''A'') = Some ''A''
   \<and> listener_body (node_B\<lparr>clock := 7, request_queue := [(2, ''B'')]\<rparr>)
        (Decoded (proto_msg ''REQUEST'' 1 ''A''))
       = (node_B\<lparr>clock := 9, request_queue := [(1, ''A''), (2, ''B'')]\<rparr>,
          Some (proto_msg ''REPLY'' 9 ''B''))"
  using listener_request_reply
    [of "proto_msg ''REQUEST'' 1 ''A''" 1 "''A''" "node_B\<lparr>clock := 7, request_queue := [(2, ''B'')]\<rparr>"]
  by (simp add: scenario_defs proto_msg_def empty_msg_def put_def)

text \<open>
  C9. For every inbound message whose type is none of REQUEST, RELEASE and REPLY (or is
  missing), the listener answers with the error status and leaves the whole state, hence
  the clock, the request queue and the set of outstanding replies, as it was.
\<close>

theorem listener_unknown_type:
  "mtype m \<noteq> Some ''REQUEST'' \<Longrightarrow> mtype m \<noteq> Some ''RELEASE'' \<Longrightarrow> mtype m \<noteq> Some ''REPLY'' \<Longrightarrow>
   listener_body s (Decoded m) = (s, Some err_msg)
   \<and> status err_msg = Some ''ERR'' \<and> mtype err_msg = None"
  by (simp add: listener_body_def err_msg_def empty_msg_def)

text \<open>A message of type PING to node A while it waits is answered with the error status.\<close>

theorem listener_unknown_type_witness:
  "mtype (proto_msg ''PING'' 7 ''B'') \<noteq> Some ''REQUEST''
   \<and> mtype (proto_msg ''PING'' 7 ''B'') \<noteq> Some ''RELEASE''
   \<and> mtype (proto_msg ''PING'' 7 ''B'') \<noteq> Some ''REPLY''
   \<and> listener_body node_A_waiting (Decoded (proto_msg ''PING'' 7 ''B'')) = (node_A_waiting, Some err_msg)"
  using listener_unknown_type [of "proto_msg ''PING'' 7 ''B''" node_A_waiting]
  by (simp add: proto_msg_def empty_msg_def)

section \<open>The communicator and the coordinator: claims\<close>



text \<open>
  The first return: the listener of A is handed REPLY(3, B) as a message of its own, and
  the first pass admits A with the ticket 1 and no reply outstanding.
\<close>

lemma admitted_with_all_replies:
  "request_critical_section node_A (answers (proto_msg ''REPLY'' 3 ''B'')) 0
       [Connection (Decoded (proto_msg ''REPLY'' 3 ''B''))] [pass_with_reply]
     = Admitted 1 (node_A\<lparr>clock := 4, request_queue := [(1, ''A'')]\<rparr>)
         \<lparr>by_fallback = False, passes_before = 0, start_in_force = 0\<rparr>"
  by (simp add: scenario_defs step_defs)

text \<open>
  After \<^verbatim>\<open>stop()\<close> the listener of B, blocked in \<^verbatim>\<open>accept\<close>, still serves the next
  connection, A's REQUEST, and no connection after it.
\<close>

lemma served_after_stop:
  "listener node_B
       [Stop_called, Connection (Decoded (proto_msg ''REQUEST'' 1 ''A'')),
        Connection (Decoded (proto_msg ''REQUEST'' 5 ''A''))]
     = ([node_B\<lparr>running := False\<rparr>,
         node_B\<lparr>running := False, clock := 2\<rparr>,
         node_B\<lparr>running := False, clock := 2, request_queue := [(1, ''A'')]\<rparr>,
         node_B\<lparr>running := False, clock := 3, request_queue := [(1, ''A'')]\<rparr>],
        [Some (proto_msg ''REPLY'' 3 ''B'')])"
  by (simp add: scenario_defs step_defs)

text \<open>
  The removal by the listener runs without the lock. While it serves a RELEASE of C, the
  queue of A is for a moment \<open>[(2, A)]\<close>, with \<open>(1, B)\<close> in the listener's list: a pass
  that reads then admits A. And a pass that finds the queue non-empty and reads its head
  after the listener has emptied it ends in \<^verbatim>\<open>IndexError\<close>.
\<close>

lemma admitted_during_removal:
  "wait_for_admission 2 0 0 [(quiet_pass 1)\<lparr>steps_before_replies := 2\<rparr>]
       (node_A_behind, fst (accept node_A_behind release_of_C))
     = Admitted 2 (node_A\<lparr>clock := 8, request_queue := [(2, ''A'')]\<rparr>)
         \<lparr>by_fallback = False, passes_before = 0, start_in_force = 0\<rparr>"
  by (simp add: scenario_defs step_defs)

lemma index_error_during_removal:
  "wait_for_admission 2 0 0 [(quiet_pass 1)\<lparr>steps_before_replies := 1, steps_before_head := 2\<rparr>]
       (node_A_behind, fst (accept node_A_behind release_of_C))
     = Index_error"
  by (simp add: scenario_defs step_defs)

text \<open>Once served as a whole, the RELEASE of C leaves B ahead and A waits.\<close>

lemma waiting_after_removal:
  "wait_for_admission 2 0 0 [(quiet_pass 1)\<lparr>steps_before_replies := 5\<rparr>]
       (node_A_behind, fst (accept node_A_behind release_of_C))
     = Still_waiting"
  by (simp add: scenario_defs step_defs)

text \<open>
  C1. Two nodes run the program. B's listener answers A's REQUEST(1, A) with REPLY(3, B)
  on the same connection; in A that REPLY is the value returned by \<^verbatim>\<open>_send_to_peer\<close>,
  which the broadcast drops. After the broadcast A's clock is 1 (not 4), B is still in
  \<^verbatim>\<open>replies_needed\<close>, the event is not set, and A stays blocked until the wait window
  has elapsed, when it is admitted with B's reply still outstanding.
\<close>

theorem reply_on_connection_not_counted:
  "listener_body node_B (Decoded (proto_msg ''REQUEST'' 1 ''A''))
     = (node_B\<lparr>clock := 3, request_queue := [(1, ''A'')]\<rparr>, Some (proto_msg ''REPLY'' 3 ''B''))
   \<and> request_send node_A (answers (proto_msg ''REPLY'' 3 ''B'')) = (1, node_A_waiting)
   \<and> clock node_A_waiting = 1
   \<and> replies_needed node_A_waiting = {''B''}
   \<and> \<not> replies_event node_A_waiting
   \<and> wait_for_admission 1 0 0 [quiet_pass 1, quiet_pass 5, quiet_pass 10] (node_A_waiting, [])
       = Still_waiting
   \<and> request_critical_section node_A (answers (proto_msg ''REPLY'' 3 ''B'')) 0 []
        [quiet_pass 1, quiet_pass 5, quiet_pass 10, quiet_pass 11]
       = Admitted 1 node_A_waiting
           \<lparr>by_fallback = True, passes_before = 3, start_in_force = 0\<rparr>"
  by (simp add: scenario_defs step_defs)

text \<open>
  Against the reading that a failed RELEASE leaves the set of outstanding replies alone:
  A is admitted by the fallback with B outstanding, and the RELEASE that cannot reach B
  takes B out of the set.
\<close>

theorem release_failure_counterexample:
  "request_critical_section node_A (answers (proto_msg ''REPLY'' 3 ''B'')) 0 [] [quiet_pass 11]
     = Admitted 1 node_A_waiting \<lparr>by_fallback = True, passes_before = 0, start_in_force = 0\<rparr>
   \<and> replies_needed node_A_waiting = {''B''}
   \<and> replies_needed (release_critical_section node_A_waiting 1 unreachable) = {}
   \<and> replies_needed (release_critical_section node_A_waiting 1 unreachable)
       \<noteq> replies_needed node_A_waiting"
  by (simp add: scenario_defs step_defs)

text \<open>
  C4 (amended). On a transport failure \<^verbatim>\<open>_send_to_peer\<close> returns no response, raises
  nothing, and takes the failing peer's id out of the set of outstanding replies, whatever
  the message is. So after the REQUEST broadcast the set holds the ids of the peers
  without those of the peers that failed, and after the RELEASE broadcast it is the set of
  before without the ids of the peers that failed; a failed RELEASE has no other effect
  (queue and clock are those of a release without failure), and the set is unchanged by
  the release when no failing peer is in it.
\<close>

theorem send_failure_evicts:
  "send_to_peer s p m expect_response Failed
     = (s\<lparr>replies_needed := replies_needed s - {peer_id p}\<rparr>, None)
   \<and> request_send s nw =
       (clock s + 1,
        s\<lparr>clock := clock s + 1,
          request_queue := put (clock s + 1, my_id s) (request_queue s),
          replies_needed := peer_id ` set (peers s) - peer_id ` {p \<in> set (peers s). nw p = Failed}\<rparr>)
   \<and> release_critical_section s ts nw =
       s\<lparr>request_queue := remove_request (my_id s) ts (request_queue s),
         clock := clock s + 1,
         replies_needed := replies_needed s - peer_id ` {p \<in> set (peers s). nw p = Failed}\<rparr>
   \<and> ((\<forall>p \<in> set (peers s). nw p = Failed \<longrightarrow> peer_id p \<notin> replies_needed s) \<longrightarrow>
        replies_needed (release_critical_section s ts nw) = replies_needed s)"
proof -
  have "replies_needed s - peer_id ` {p \<in> set (peers s). nw p = Failed} = replies_needed s"
    if "\<forall>p \<in> set (peers s). nw p = Failed \<longrightarrow> peer_id p \<notin> replies_needed s"
    using that by auto
  then show ?thesis
    by (simp add: send_to_peer_def request_send_eq release_critical_section_eq)
qed

text \<open>
  Node A, admitted with no reply outstanding, releases while B is unreachable: the set
  stays empty and the queue is emptied; a REQUEST broadcast to the unreachable B leaves
  no reply outstanding.
\<close>

theorem send_failure_evicts_witness:
  "peers (node_A\<lparr>clock := 4, request_queue := [(1, ''A'')]\<rparr>) = [peer_B]
   \<and> unreachable peer_B = Failed
   \<and> peer_id peer_B \<notin> replies_needed (node_A\<lparr>clock := 4, request_queue := [(1, ''A'')]\<rparr>)
   \<and> replies_needed
        (release_critical_section (node_A\<lparr>clock := 4, request_queue := [(1, ''A'')]\<rparr>) 1 unreachable)
       = replies_needed (node_A\<lparr>clock := 4, request_queue := [(1, ''A'')]\<rparr>)
   \<and> release_critical_section (node_A\<lparr>clock := 4, request_queue := [(1, ''A'')]\<rparr>) 1 unreachable
       = node_A\<lparr>clock := 5\<rparr>
   \<and> request_send node_A unreachable = (1, node_A\<lparr>clock := 1, request_queue := [(1, ''A'')]\<rparr>)
   \<and> snd (send_to_peer node_A_waiting peer_B (proto_msg ''REQUEST'' 1 ''A'') True Failed) = None"
  using send_failure_evicts
    [where s = "node_A\<lparr>clock := 4, request_queue := [(1, ''A'')]\<rparr>" and p = peer_B
       and m = "proto_msg ''REQUEST'' 1 ''A''" and expect_response = True and ts = 1
       and nw = unreachable]
    send_failure_evicts
    [where s = node_A_waiting and p = peer_B and m = "proto_msg ''REQUEST'' 1 ''A''"
       and expect_response = True and ts = 1 and nw = unreachable]
    send_failure_evicts
    [where s = node_A and p = peer_B and m = "proto_msg ''REQUEST'' 1 ''A''"
       and expect_response = True and ts = 1 and nw = unreachable]
  by (simp add: scenario_defs step_defs)


end
